theory Spec2Isabelle
  imports Main
begin

section \<open>Arbitrary-precision integers\<close>

text \<open>
  The program computes on \<^verbatim>\<open>mpz_class\<close> values of the GMP C++ wrapper: unbounded
  integers, here \<^typ>\<open>int\<close>. The wrapper's \<^verbatim>\<open>operator/\<close> and \<^verbatim>\<open>operator%\<close> are
  \<^verbatim>\<open>mpz_tdiv_q\<close> and \<^verbatim>\<open>mpz_tdiv_r\<close>: the quotient is rounded towards zero and the
  remainder has the sign of the dividend. A zero divisor stops the process (GMP raises
  a division-by-zero signal), so every caller below tests the divisor first. The
  wrapper's \<^verbatim>\<open>gcd\<close> is \<^verbatim>\<open>mpz_gcd\<close>: never negative, and zero only for two zero
  operands, as \<^const>\<open>gcd\<close> on \<^typ>\<open>int\<close>.
\<close>

definition tdiv :: "int \<Rightarrow> int \<Rightarrow> int" where
  "tdiv a b = sgn a * sgn b * (\<bar>a\<bar> div \<bar>b\<bar>)"

definition tmod :: "int \<Rightarrow> int \<Rightarrow> int" where
  "tmod a b = sgn a * (\<bar>a\<bar> mod \<bar>b\<bar>)"

datatype error =
    UsageExit            \<comment> \<open>\<^verbatim>\<open>argc < 2\<close>: message and \<^verbatim>\<open>exit(1)\<close>\<close>
  | DivisionByZero       \<comment> \<open>GMP division by a zero modulus\<close>
  | OutOfRange           \<comment> \<open>a vector read past its size\<close>
  | EmptyInputError      \<comment> \<open>the builder was given no leaf\<close>
  | StorageError         \<comment> \<open>a level that is not in the store\<close>

definition bindE :: "error + 'a \<Rightarrow> ('a \<Rightarrow> error + 'b) \<Rightarrow> error + 'b" where
  "bindE m f = (case m of Inl e \<Rightarrow> Inl e | Inr x \<Rightarrow> f x)"


section \<open>Option flag and numeric base (batchgcd.cpp, lines 56 to 66)\<close>

text \<open>
  \<^verbatim>\<open>static int base_10_flag\<close> is zero-initialised. The option table has the single
  entry \<^verbatim>\<open>{"base10", no_argument, &base_10_flag, 1}\<close>: when the option parser
  recognises that option it stores 1 into the flag, otherwise the flag keeps its value.
  Whether the parser recognised the option is the parameter \<open>seen\<close>.
\<close>

definition base_10_flag_init :: int where
  "base_10_flag_init = 0"

definition getopt_long_only :: "bool \<Rightarrow> int \<Rightarrow> int" where
  "getopt_long_only seen flag = (if seen then 1 else flag)"

text \<open>\<^verbatim>\<open>int base = 16; if (base_10_flag) base = 10;\<close>\<close>

definition set_base :: "int \<Rightarrow> int" where
  "set_base base_10_flag = (if base_10_flag \<noteq> 0 then 10 else 16)"


section \<open>Part (C): final GCDs (batchgcd.cpp, lines 108 to 111)\<close>

text \<open>
  One iteration of the loop: \<^verbatim>\<open>R[i] = R[i] / input_moduli[i]; R[i] = gcd(R[i],
  input_moduli[i]);\<close>. The value returned is the new \<^verbatim>\<open>R[i]\<close>.
\<close>

definition final_gcd :: "int \<Rightarrow> int \<Rightarrow> error + int" where
  "final_gcd X R = (if X = 0 then Inl DivisionByZero else Inr (gcd (tdiv R X) X))"

text \<open>
  The loop runs over the indices of \<^verbatim>\<open>input_moduli\<close> in increasing order and writes
  \<^verbatim>\<open>R[i]\<close>; entries of \<^verbatim>\<open>R\<close> past the moduli are left alone, and a vector \<^verbatim>\<open>R\<close>
  shorter than the moduli is read out of range.
\<close>

fun final_gcds :: "int list \<Rightarrow> int list \<Rightarrow> error + int list" where
  "final_gcds [] R = Inr R"
| "final_gcds (x # X) [] = Inl OutOfRange"
| "final_gcds (x # X) (r # R) =
     bindE (final_gcd x r) (\<lambda>d. bindE (final_gcds X R) (\<lambda>D. Inr (d # D)))"


section \<open>Verification loop (batchgcd.cpp, lines 132 to 151)\<close>

text \<open>
  The program keeps three tallies: the identifiers of the duplicates, the lines of the
  compromised moduli (identifier, \<^verbatim>\<open>factor_p\<close>, \<^verbatim>\<open>factor_q\<close>; the program joins the three
  with commas, the numbers in decimal) and the counter \<^verbatim>\<open>false_positives\<close>. The counter
  is a C \<^verbatim>\<open>int\<close>; it is incremented at most once per leaf.
\<close>

record report =
  duplicates :: "string list"
  compromised :: "(string \<times> int \<times> int) list"
  false_positives :: int

definition report_init :: report where
  "report_init = \<lparr>duplicates = [], compromised = [], false_positives = 0\<rparr>"

text \<open>
  The branch taken for one leaf, as the nested conditionals of lines 138 to 149 select it.
  \<open>R\<close> is \<^verbatim>\<open>R[i]\<close> after part (C). A leaf for which \<^verbatim>\<open>R[i] == 1\<close> enters no tally:
  it is the clean leaf. The test \<^verbatim>\<open>R[i] == 0 ||\<close> short-circuits, so no remainder or
  quotient by zero is computed.
\<close>

datatype classification = Clean | Anomaly | Duplicate | Compromised int int

definition classify :: "int \<Rightarrow> int \<Rightarrow> classification" where
  "classify X R =
     (if R \<noteq> 1 then
        (if R = 0 \<or> tmod X R \<noteq> 0 then Anomaly
         else if R = X then Duplicate
         else Compromised R (tdiv X R))
      else Clean)"

text \<open>
  The effect of one iteration on the tallies. \<open>ident\<close> is \<^verbatim>\<open>IDs[i]\<close>, or \<open>None\<close> when
  \<^verbatim>\<open>IDs\<close> has no index \<open>i\<close>; it is read in the duplicate and compromised branches only.
\<close>

definition verify_step :: "string option \<Rightarrow> int \<Rightarrow> int \<Rightarrow> report \<Rightarrow> error + report" where
  "verify_step ident X R rep =
     (case classify X R of
        Clean \<Rightarrow> Inr rep
      | Anomaly \<Rightarrow> Inr (rep\<lparr>false_positives := false_positives rep + 1\<rparr>)
      | Duplicate \<Rightarrow>
          (case ident of
             None \<Rightarrow> Inl OutOfRange
           | Some a \<Rightarrow> Inr (rep\<lparr>duplicates := duplicates rep @ [a]\<rparr>))
      | Compromised p q \<Rightarrow>
          (case ident of
             None \<Rightarrow> Inl OutOfRange
           | Some a \<Rightarrow> Inr (rep\<lparr>compromised := compromised rep @ [(a, p, q)]\<rparr>)))"

text \<open>
  The loop runs over the indices of \<^verbatim>\<open>input_moduli\<close> in increasing order and reads
  \<^verbatim>\<open>R[i]\<close> at every index.
\<close>

fun verify :: "string list \<Rightarrow> int list \<Rightarrow> int list \<Rightarrow> report \<Rightarrow> error + report" where
  "verify ids [] R rep = Inr rep"
| "verify ids (x # X) [] rep = Inl OutOfRange"
| "verify ids (x # X) (r # R) rep =
     bindE (verify_step (case ids of [] \<Rightarrow> None | a # _ \<Rightarrow> Some a) x r rep)
       (verify (tl ids) X R)"


section \<open>The level store\<close>

text \<open>
  Modelled from the spec: the reader and writer of levels (\<^verbatim>\<open>read_level_from_file\<close> is
  called by \<^verbatim>\<open>main\<close> and declared in \<^verbatim>\<open>utils.hpp\<close>, which is not among the sources).
  Section 4.1: a level is an ordered sequence of integers kept under its level index;
  loading gives back the sequence that was persisted, in the same order, and fails with
  \<open>StorageError\<close> for a level that is missing.
\<close>

type_synonym store = "nat \<Rightarrow> int list option"

definition persistLevel :: "nat \<Rightarrow> int list \<Rightarrow> store \<Rightarrow> store" where
  "persistLevel l xs st = st(l \<mapsto> xs)"

definition read_level_from_file :: "store \<Rightarrow> nat \<Rightarrow> error + int list" where
  "read_level_from_file st l = (case st l of None \<Rightarrow> Inl StorageError | Some xs \<Rightarrow> Inr xs)"


section \<open>Part (A): the product tree\<close>

text \<open>
  Modelled from the spec: one level of the product tree from the level below
  (\<^verbatim>\<open>product_tree\<close> is declared in \<^verbatim>\<open>utils.hpp\<close>, which is not among the sources).
  Section 3: level \<open>L\<close> has \<open>\<lceil>|level L-1| / 2\<rceil>\<close> entries; entry \<open>j\<close> is the product of
  entries \<open>2j\<close> and \<open>2j+1\<close> of level \<open>L-1\<close>, and a copy of entry \<open>2j\<close> when \<open>2j+1\<close> is absent.
\<close>

definition next_level :: "int list \<Rightarrow> int list" where
  "next_level xs =
     map (\<lambda>j. if 2 * j + 1 < length xs then xs ! (2 * j) * xs ! (2 * j + 1) else xs ! (2 * j))
       [0..<(length xs + 1) div 2]"

text \<open>
  Modelled from the spec: the builder's loop. Section 4.2: starting from level 0 (the
  input), derive the next level until a level of size 1 is reached, persisting every
  level; the result is the height \<open>H\<close>. The loop is entered with a nonempty level only
  (see \<open>product_tree\<close>), and the next level of a nonempty level is nonempty.
\<close>

function product_tree_loop :: "nat \<Rightarrow> int list \<Rightarrow> store \<Rightarrow> store \<times> nat" where
  "product_tree_loop L xs st =
     (if length xs \<le> 1 then (persistLevel L xs st, L)
      else product_tree_loop (Suc L) (next_level xs) (persistLevel L xs st))"
  by pat_completeness auto
termination
  by (relation "measure (\<lambda>(L, xs, st). length xs)") (auto simp: next_level_def)

text \<open>
  Modelled from the spec: the builder. Section 4.2: \<open>n = 0\<close> is invalid
  (\<open>EmptyInputError\<close>); otherwise the levels \<open>0..H\<close> are written and \<open>H\<close> is returned.
\<close>

definition product_tree :: "int list \<Rightarrow> error + store \<times> nat" where
  "product_tree xs =
     (if xs = [] then Inl EmptyInputError else Inr (product_tree_loop 0 xs Map.empty))"


section \<open>Part (B): the remainder tree\<close>

text \<open>
  Modelled from the spec: one step of the descent (\<^verbatim>\<open>remainders_squares\<close> is declared in
  \<^verbatim>\<open>utils.hpp\<close>, which is not among the sources). Section 4.3: for every node at level
  \<open>L-1\<close> that is a child of a node at level \<open>L\<close>, the child's running remainder is the
  parent's running remainder mod the square of the child's own value. The parent of
  node \<open>i\<close> is node \<open>i div 2\<close> (section 3). \<open>rs\<close> are the remainders of level \<open>L\<close>, \<open>xs\<close> the
  values of level \<open>L-1\<close>. For positive moduli every dividend is nonnegative and every
  square positive, where all conventions for the remainder agree.
\<close>

definition descend :: "int list \<Rightarrow> int list \<Rightarrow> int list" where
  "descend rs xs =
     map (\<lambda>i. rs ! (i div 2) mod (xs ! i)\<^sup>2)
       (filter (\<lambda>i. i div 2 < length rs) [0..<length xs])"

text \<open>
  Modelled from the spec: the descent. Section 4.3: for each level from \<open>H\<close> down to 1,
  the level below is read from the store and its remainders computed; the remainders
  of level 0 are the output.
\<close>

fun descend_levels :: "store \<Rightarrow> nat \<Rightarrow> int list \<Rightarrow> error + int list" where
  "descend_levels st 0 rs = Inr rs"
| "descend_levels st (Suc l) rs =
     bindE (read_level_from_file st l) (\<lambda>xs. descend_levels st l (descend rs xs))"

text \<open>
  Modelled from the spec: the propagator. Sections 3 and 4.3: the running value at the
  root level (level \<open>H\<close>) is initialised as the root value itself, then the descent begins.
\<close>

definition remainders_squares :: "nat \<Rightarrow> store \<Rightarrow> error + int list" where
  "remainders_squares levels st =
     bindE (read_level_from_file st levels) (\<lambda>root. descend_levels st levels root)"


text \<open>Parts (A) and (B) in sequence: the leaf remainders of an input.\<close>

definition leaf_remainders :: "int list \<Rightarrow> error + int list" where
  "leaf_remainders moduli =
     bindE (product_tree moduli) (\<lambda>(st, levels). remainders_squares levels st)"

text \<open>
  Modelled from the spec: the propagator under the other reading of the sentence of
  section 3 on the root (\<^verbatim>\<open>remainders_squares\<close> is declared in \<^verbatim>\<open>utils.hpp\<close>, which is not
  among the sources). That sentence says both that the root's remainder equals
  \<open>Z mod (root)\<^sup>2\<close> and that it is the seed value \<open>Z\<close> itself; \<open>remainders_squares\<close> above takes
  the second, and here the running value at the root is the root value reduced modulo
  its own square. The descent is the same.
\<close>

definition remainders_squares_reduced :: "nat \<Rightarrow> store \<Rightarrow> error + int list" where
  "remainders_squares_reduced levels st =
     bindE (read_level_from_file st levels)
       (\<lambda>root. descend_levels st levels (map (\<lambda>z. z mod z\<^sup>2) root))"

definition leaf_remainders_reduced :: "int list \<Rightarrow> error + int list" where
  "leaf_remainders_reduced moduli =
     bindE (product_tree moduli) (\<lambda>(st, levels). remainders_squares_reduced levels st)"


section \<open>The whole run (batchgcd.cpp, \<^verbatim>\<open>main\<close>)\<close>

text \<open>
  \<open>ids\<close> and \<open>moduli\<close> are the two vectors that \<^verbatim>\<open>read_moduli_from_csv\<close> fills from the
  input file. Parts (A), (B) and (C) leave the moduli re-read from level 0 and the
  vector \<^verbatim>\<open>R\<close> of final GCDs. \<open>argc\<close> is 2 when the input file is the only argument.
  The prompt for the number of threads, the timers and the
  printing are left out; the result of a run is the three tallies, which the program
  prints and writes to \<^verbatim>\<open>compromised.csv\<close> and \<^verbatim>\<open>duplicates.csv\<close>.
\<close>

definition parts_ABC :: "int list \<Rightarrow> error + int list \<times> int list" where
  "parts_ABC moduli =
     bindE (product_tree moduli) (\<lambda>(st, levels).
     bindE (remainders_squares levels st) (\<lambda>R.
     bindE (read_level_from_file st 0) (\<lambda>input_moduli.
     bindE (final_gcds input_moduli R) (\<lambda>R'. Inr (input_moduli, R')))))"

definition main :: "int \<Rightarrow> string list \<Rightarrow> int list \<Rightarrow> error + report" where
  "main argc ids moduli =
     (if argc < 2 then Inl UsageExit
      else bindE (parts_ABC moduli) (\<lambda>(input_moduli, R). verify ids input_moduli R report_init))"

text \<open>The branch of the verification loop that each leaf takes in a run.\<close>

definition leaf_classes :: "int list \<Rightarrow> error + classification list" where
  "leaf_classes moduli =
     bindE (parts_ABC moduli) (\<lambda>(input_moduli, R). Inr (map2 classify input_moduli R))"


section \<open>Properties of the arithmetic and of the two loops of \<^verbatim>\<open>main\<close>\<close>

lemma tdiv_nonneg: "0 \<le> a \<Longrightarrow> 0 < b \<Longrightarrow> tdiv a b = a div b"
  by (cases "a = 0") (simp_all add: tdiv_def)

lemma tdiv_self: "x \<noteq> 0 \<Longrightarrow> tdiv x x = 1"
  by (simp add: tdiv_def sgn_mult_self_eq)

lemma tmod_eq_0_iff: "tmod a b = 0 \<longleftrightarrow> b dvd a"
proof (cases "a = 0")
  case True
  then show ?thesis by (simp add: tmod_def)
next
  case False
  then have "tmod a b = 0 \<longleftrightarrow> \<bar>a\<bar> mod \<bar>b\<bar> = 0"
    by (simp add: tmod_def sgn_eq_0_iff)
  also have "\<dots> \<longleftrightarrow> \<bar>b\<bar> dvd \<bar>a\<bar>" by (simp add: dvd_eq_mod_eq_0)
  finally show ?thesis by simp
qed

lemma final_gcd_divisor:
  assumes "X \<noteq> 0"
  shows "final_gcd X R = Inr (gcd (tdiv R X) X)"
    and "1 \<le> gcd (tdiv R X) X"
    and "gcd (tdiv R X) X dvd X"
proof -
  show "final_gcd X R = Inr (gcd (tdiv R X) X)" using assms by (simp add: final_gcd_def)
  have "gcd (tdiv R X) X \<noteq> 0" using assms by simp
  moreover have "0 \<le> gcd (tdiv R X) X" by simp
  ultimately show "1 \<le> gcd (tdiv R X) X" by linarith
  show "gcd (tdiv R X) X dvd X" by simp
qed

lemma classify_divisor:
  assumes "0 < X" "1 \<le> D" "D dvd X"
  shows "classify X D =
    (if D = 1 then Clean else if D = X then Duplicate else Compromised D (X div D))"
proof -
  from assms have "tmod X D = 0" by (simp add: tmod_eq_0_iff)
  moreover from assms have "tdiv X D = X div D" by (simp add: tdiv_nonneg)
  moreover from assms have "D \<noteq> 0" by simp
  ultimately show ?thesis by (simp add: classify_def)
qed

lemma final_gcds_map:
  assumes "length R = length X" "\<forall>x\<in>set X. x \<noteq> 0"
  shows "final_gcds X R = Inr (map2 (\<lambda>x r. gcd (tdiv r x) x) X R)"
  using assms
proof (induction X R rule: list_induct2')
  case (4 x X r R)
  then show ?case by (simp add: bindE_def final_gcd_def)
qed simp_all

lemma verify_tallies:
  assumes "length ids = length X" "length R = length X"
  shows "\<exists>rep'. verify ids X R rep = Inr rep'
    \<and> false_positives rep' =
        false_positives rep + int (length (filter (\<lambda>c. c = Anomaly) (map2 classify X R)))
    \<and> duplicates rep' =
        duplicates rep @ map fst (filter (\<lambda>(a, c). c = Duplicate) (zip ids (map2 classify X R)))
    \<and> compromised rep' =
        compromised rep @ concat (map (\<lambda>(a, c). case c of Compromised p q \<Rightarrow> [(a, p, q)] | _ \<Rightarrow> [])
          (zip ids (map2 classify X R)))"
  using assms(1) assms(2) [symmetric]
proof (induction ids X R arbitrary: rep rule: list_induct3)
  case Nil
  then show ?case by simp
next
  case (Cons a ids x X r R)
  show ?case
  proof (cases "classify x r")
    case Clean
    with Cons.IH [of rep] show ?thesis
      by (simp add: bindE_def verify_step_def)
  next
    case Anomaly
    with Cons.IH [of "rep\<lparr>false_positives := false_positives rep + 1\<rparr>"] show ?thesis
      by (auto simp add: bindE_def verify_step_def)
  next
    case Duplicate
    with Cons.IH [of "rep\<lparr>duplicates := duplicates rep @ [a]\<rparr>"] show ?thesis
      by (auto simp add: bindE_def verify_step_def)
  next
    case (Compromised p q)
    with Cons.IH [of "rep\<lparr>compromised := compromised rep @ [(a, p, q)]\<rparr>"] show ?thesis
      by (auto simp add: bindE_def verify_step_def)
  qed
qed


section \<open>Properties of the product tree\<close>

lemma length_next_level: "length (next_level xs) = (length xs + 1) div 2"
  by (simp add: next_level_def)

lemma next_level_Nil: "next_level [] = []"
  by (simp add: next_level_def)

lemma next_level_single: "next_level [x] = [x]"
  by (simp add: next_level_def)

lemma nth_next_level:
  "j < (length xs + 1) div 2 \<Longrightarrow>
   next_level xs ! j =
     (if 2 * j + 1 < length xs then xs ! (2 * j) * xs ! (2 * j + 1) else xs ! (2 * j))"
  unfolding next_level_def by (simp del: upt_Suc)

lemma next_level_pair: "next_level (x # y # xs) = (x * y) # next_level xs"
proof (rule nth_equalityI)
  show "length (next_level (x # y # xs)) = length ((x * y) # next_level xs)"
    by (simp add: length_next_level)
next
  fix j assume "j < length (next_level (x # y # xs))"
  then have j: "j < Suc ((length xs + 1) div 2)"
    by (simp add: length_next_level)
  show "next_level (x # y # xs) ! j = ((x * y) # next_level xs) ! j"
  proof (cases j)
    case 0
    then show ?thesis using nth_next_level [of 0 "x # y # xs"] by simp
  next
    case (Suc k)
    with j have k: "k < (length xs + 1) div 2" by simp
    have "next_level (x # y # xs) ! j =
        (if 2 * j + 1 < length (x # y # xs) then (x # y # xs) ! (2 * j) * (x # y # xs) ! (2 * j + 1)
         else (x # y # xs) ! (2 * j))"
      using j by (intro nth_next_level) simp
    also have "\<dots> = (if 2 * k + 1 < length xs then xs ! (2 * k) * xs ! (2 * k + 1) else xs ! (2 * k))"
      using Suc by simp
    also have "\<dots> = next_level xs ! k"
      using k by (simp add: nth_next_level)
    finally show ?thesis using Suc by simp
  qed
qed

lemma prod_list_next_level: "prod_list (next_level xs) = prod_list xs"
  by (induction xs rule: induct_list012)
     (simp_all add: next_level_Nil next_level_single next_level_pair mult.assoc)

lemma next_level_nonempty: "xs \<noteq> [] \<Longrightarrow> next_level xs \<noteq> []"
  using length_next_level [of xs] by (cases xs) auto

lemma child_dvd_parent:
  assumes "i < length xs"
  shows "xs ! i dvd next_level xs ! (i div 2)"
proof -
  have j: "i div 2 < (length xs + 1) div 2" using assms by linarith
  then have eq: "next_level xs ! (i div 2) =
      (if 2 * (i div 2) + 1 < length xs then xs ! (2 * (i div 2)) * xs ! (2 * (i div 2) + 1)
       else xs ! (2 * (i div 2)))"
    by (rule nth_next_level)
  show ?thesis
  proof (cases "even i")
    case True
    then have "2 * (i div 2) = i" by simp
    with eq show ?thesis by simp
  next
    case False
    then have "2 * (i div 2) + 1 = i" by (simp add: odd_two_times_div_two_succ)
    with eq assms show ?thesis by simp
  qed
qed

lemma prod_list_levels: "prod_list ((next_level ^^ k) xs) = prod_list xs"
  by (induction k) (simp_all add: prod_list_next_level)

lemma levels_nonempty: "xs \<noteq> [] \<Longrightarrow> (next_level ^^ k) xs \<noteq> []"
  by (induction k) (simp_all add: next_level_nonempty)

lemma product_tree_loop_levels:
  "product_tree_loop L xs st = (st', H) \<Longrightarrow>
     L \<le> H
     \<and> (\<forall>k<L. st' k = st k)
     \<and> (\<forall>k\<le>H - L. st' (L + k) = Some ((next_level ^^ k) xs))
     \<and> length ((next_level ^^ (H - L)) xs) \<le> 1
     \<and> (\<forall>k<H - L. 1 < length ((next_level ^^ k) xs))"
proof (induction L xs st rule: product_tree_loop.induct)
  case (1 L xs st)
  show ?case
  proof (cases "length xs \<le> 1")
    case True
    with "1.prems" have "st' = persistLevel L xs st" "H = L" by auto
    with True show ?thesis by (simp add: persistLevel_def)
  next
    case False
    with "1.prems" have run: "product_tree_loop (Suc L) (next_level xs) (persistLevel L xs st) = (st', H)"
      by simp
    note IH = "1.IH" [OF False run]
    from IH have le: "Suc L \<le> H" by simp
    from IH have old: "\<forall>k<Suc L. st' k = persistLevel L xs st k" by simp
    from IH have new: "\<forall>k\<le>H - Suc L. st' (Suc L + k) = Some ((next_level ^^ k) (next_level xs))"
      by simp
    from IH have top: "length ((next_level ^^ (H - Suc L)) (next_level xs)) \<le> 1" by simp
    from IH have big: "\<forall>k<H - Suc L. 1 < length ((next_level ^^ k) (next_level xs))" by simp
    have a: "\<forall>k<L. st' k = st k"
      using old by (simp add: persistLevel_def)
    have b: "\<forall>k\<le>H - L. st' (L + k) = Some ((next_level ^^ k) xs)"
    proof (intro allI impI)
      fix k assume k: "k \<le> H - L"
      show "st' (L + k) = Some ((next_level ^^ k) xs)"
      proof (cases k)
        case 0
        then show ?thesis using old by (simp add: persistLevel_def)
      next
        case (Suc m)
        with k le have "m \<le> H - Suc L" by simp
        with new have "st' (Suc L + m) = Some ((next_level ^^ m) (next_level xs))" by simp
        then show ?thesis using Suc by (simp add: funpow_swap1)
      qed
    qed
    have c: "length ((next_level ^^ (H - L)) xs) \<le> 1"
    proof -
      from le have "H - L = Suc (H - Suc L)" by simp
      then show ?thesis using top by (simp add: funpow_swap1)
    qed
    have d: "\<forall>k<H - L. 1 < length ((next_level ^^ k) xs)"
    proof (intro allI impI)
      fix k assume k: "k < H - L"
      show "1 < length ((next_level ^^ k) xs)"
      proof (cases k)
        case 0
        then show ?thesis using False by simp
      next
        case (Suc m)
        with k have "m < H - Suc L" by simp
        with big show ?thesis using Suc by (simp add: funpow_swap1)
      qed
    qed
    from le a b c d show ?thesis by simp
  qed
qed

lemma product_tree_levels:
  assumes "xs \<noteq> []" and "product_tree xs = Inr (st, H)"
  shows "\<forall>k\<le>H. st k = Some ((next_level ^^ k) xs)"
    and "(next_level ^^ H) xs = [prod_list xs]"
    and "\<forall>k<H. 1 < length ((next_level ^^ k) xs)"
proof -
  from assms have run: "product_tree_loop 0 xs Map.empty = (st, H)"
    by (simp add: product_tree_def)
  from product_tree_loop_levels [OF run]
  show "\<forall>k\<le>H. st k = Some ((next_level ^^ k) xs)"
    and "\<forall>k<H. 1 < length ((next_level ^^ k) xs)" by simp_all
  from product_tree_loop_levels [OF run]
  have "length ((next_level ^^ H) xs) \<le> 1" by simp
  moreover have "(next_level ^^ H) xs \<noteq> []"
    using assms(1) by (rule levels_nonempty)
  ultimately obtain z where z: "(next_level ^^ H) xs = [z]"
    by (cases "(next_level ^^ H) xs") auto
  have "prod_list ((next_level ^^ H) xs) = prod_list xs"
    by (rule prod_list_levels)
  with z show "(next_level ^^ H) xs = [prod_list xs]" by simp
qed

lemma product_tree_total:
  "xs \<noteq> [] \<Longrightarrow> \<exists>st H. product_tree xs = Inr (st, H)"
  by (cases "product_tree_loop 0 xs Map.empty") (simp add: product_tree_def)


section \<open>Properties of the remainder tree\<close>

lemma descend_nth:
  assumes "length rs = (length xs + 1) div 2"
  shows "length (descend rs xs) = length xs"
    and "\<forall>i<length xs. descend rs xs ! i = rs ! (i div 2) mod (xs ! i)\<^sup>2"
proof -
  have "\<forall>i\<in>set [0..<length xs]. i div 2 < length rs"
    using assms by auto
  then have "filter (\<lambda>i. i div 2 < length rs) [0..<length xs] = [0..<length xs]"
    by (simp only: filter_id_conv)
  then have eq: "descend rs xs = map (\<lambda>i. rs ! (i div 2) mod (xs ! i)\<^sup>2) [0..<length xs]"
    by (simp add: descend_def)
  from eq show "length (descend rs xs) = length xs" by simp
  from eq show "\<forall>i<length xs. descend rs xs ! i = rs ! (i div 2) mod (xs ! i)\<^sup>2" by simp
qed

lemma descend_exact:
  assumes len: "length rs = length (next_level xs)"
    and cong: "\<forall>j<length rs. rs ! j mod (next_level xs ! j)\<^sup>2 = Z mod (next_level xs ! j)\<^sup>2"
  shows "length (descend rs xs) = length xs"
    and "\<forall>i<length xs. descend rs xs ! i = Z mod (xs ! i)\<^sup>2"
proof -
  from len have len': "length rs = (length xs + 1) div 2"
    by (simp add: length_next_level)
  from descend_nth(1) [OF len'] show "length (descend rs xs) = length xs" .
  show "\<forall>i<length xs. descend rs xs ! i = Z mod (xs ! i)\<^sup>2"
  proof (intro allI impI)
    fix i assume i: "i < length xs"
    let ?c = "xs ! i" and ?p = "next_level xs ! (i div 2)" and ?r = "rs ! (i div 2)"
    from i len' have j: "i div 2 < length rs" by linarith
    have "?c dvd ?p" using i by (rule child_dvd_parent)
    then have sq: "?c\<^sup>2 dvd ?p\<^sup>2" by (rule dvd_power_same)
    from cong j have "?r mod ?p\<^sup>2 = Z mod ?p\<^sup>2" by simp
    then have "?r mod ?p\<^sup>2 mod ?c\<^sup>2 = Z mod ?p\<^sup>2 mod ?c\<^sup>2" by simp
    then have "?r mod ?c\<^sup>2 = Z mod ?c\<^sup>2"
      using sq by (simp add: mod_mod_cancel)
    with descend_nth(2) [OF len'] i show "descend rs xs ! i = Z mod (xs ! i)\<^sup>2" by simp
  qed
qed

lemma descend_levels_exact:
  assumes st: "\<forall>k\<le>l. st k = Some ((next_level ^^ k) xs)"
    and len: "length rs = length ((next_level ^^ l) xs)"
    and cong: "\<forall>j<length rs. rs ! j mod ((next_level ^^ l) xs ! j)\<^sup>2
                 = Z mod ((next_level ^^ l) xs ! j)\<^sup>2"
  shows "\<exists>R. descend_levels st l rs = Inr R \<and> length R = length xs
           \<and> (\<forall>i<length xs. R ! i mod (xs ! i)\<^sup>2 = Z mod (xs ! i)\<^sup>2)
           \<and> (0 < l \<or> (\<forall>j<length rs. rs ! j = Z mod (xs ! j)\<^sup>2)
                \<longrightarrow> (\<forall>i<length xs. R ! i = Z mod (xs ! i)\<^sup>2))"
  using st len cong
proof (induction l arbitrary: rs)
  case 0
  then show ?case by simp
next
  case (Suc l)
  let ?lo = "(next_level ^^ l) xs"
  from Suc.prems(1) have rd: "read_level_from_file st l = Inr ?lo"
    by (simp add: read_level_from_file_def)
  have up: "(next_level ^^ Suc l) xs = next_level ?lo" by simp
  from Suc.prems(2) have len': "length rs = length (next_level ?lo)" by simp
  from Suc.prems(3) have cong': "\<forall>j<length rs. rs ! j mod (next_level ?lo ! j)\<^sup>2
      = Z mod (next_level ?lo ! j)\<^sup>2" by simp
  note ex = descend_exact [OF len' cong']
  let ?rs' = "descend rs ?lo"
  have st': "\<forall>k\<le>l. st k = Some ((next_level ^^ k) xs)" using Suc.prems(1) by simp
  have c': "\<forall>j<length ?rs'. ?rs' ! j mod (?lo ! j)\<^sup>2 = Z mod (?lo ! j)\<^sup>2"
    using ex by simp
  from Suc.IH [OF st' ex(1) c']
  obtain R where R: "descend_levels st l ?rs' = Inr R" "length R = length xs"
      "\<forall>i<length xs. R ! i mod (xs ! i)\<^sup>2 = Z mod (xs ! i)\<^sup>2"
      "0 < l \<or> (\<forall>j<length ?rs'. ?rs' ! j = Z mod (xs ! j)\<^sup>2)
         \<longrightarrow> (\<forall>i<length xs. R ! i = Z mod (xs ! i)\<^sup>2)"
    by blast
  have "\<forall>i<length xs. R ! i = Z mod (xs ! i)\<^sup>2"
  proof (cases l)
    case 0
    then have "?lo = xs" by simp
    with ex R(4) show ?thesis by simp
  next
    case (Suc m)
    with R(4) show ?thesis by simp
  qed
  moreover have "descend_levels st (Suc l) rs = Inr R"
    using rd R(1) by (simp add: bindE_def)
  ultimately show ?case using R(2,3) by simp
qed

lemma sq_mod_self:
  assumes "2 \<le> (x::int)"
  shows "x mod x\<^sup>2 = x"
proof -
  have "x * 1 < x * x" using assms by (intro mult_strict_left_mono) simp_all
  then have "x < x\<^sup>2" by (simp add: power2_eq_square)
  with assms show ?thesis by simp
qed

lemma remainders_squares_correct:
  assumes ne: "xs \<noteq> []" and pt: "product_tree xs = Inr (st, H)"
  shows "\<exists>R. remainders_squares H st = Inr R \<and> length R = length xs
           \<and> (\<forall>i<length xs. R ! i mod (xs ! i)\<^sup>2 = prod_list xs mod (xs ! i)\<^sup>2)
           \<and> (\<forall>i<length xs. 2 \<le> length xs \<or> 2 \<le> xs ! i
                \<longrightarrow> R ! i = prod_list xs mod (xs ! i)\<^sup>2)"
proof -
  let ?Z = "prod_list xs"
  note lv = product_tree_levels [OF ne pt]
  from lv(1) have rd: "read_level_from_file st H = Inr [?Z]"
    using lv(2) by (simp add: read_level_from_file_def)
  have len: "length [?Z] = length ((next_level ^^ H) xs)" using lv(2) by simp
  have cong: "\<forall>j<length [?Z]. [?Z] ! j mod ((next_level ^^ H) xs ! j)\<^sup>2
      = ?Z mod ((next_level ^^ H) xs ! j)\<^sup>2" using lv(2) by simp
  from descend_levels_exact [OF lv(1) len cong]
  obtain R where R: "descend_levels st H [?Z] = Inr R" "length R = length xs"
      "\<forall>i<length xs. R ! i mod (xs ! i)\<^sup>2 = ?Z mod (xs ! i)\<^sup>2"
      "0 < H \<or> (\<forall>j<length [?Z]. [?Z] ! j = ?Z mod (xs ! j)\<^sup>2)
         \<longrightarrow> (\<forall>i<length xs. R ! i = ?Z mod (xs ! i)\<^sup>2)"
    by blast
  have run: "remainders_squares H st = Inr R"
    using rd R(1) by (simp add: remainders_squares_def bindE_def)
  have "\<forall>i<length xs. 2 \<le> length xs \<or> 2 \<le> xs ! i \<longrightarrow> R ! i = ?Z mod (xs ! i)\<^sup>2"
  proof (cases H)
    case 0
    with lv(2) have xs: "xs = [?Z]" by simp
    then have l1: "length xs = 1" by (metis length_Cons list.size(3) One_nat_def)
    from 0 R(1) have "R = [?Z]" by simp
    show ?thesis
    proof (intro allI impI)
      fix i assume i: "i < length xs" and h: "2 \<le> length xs \<or> 2 \<le> xs ! i"
      from i l1 have i0: "i = 0" by simp
      with h l1 have "2 \<le> xs ! 0" by simp
      moreover from xs have "xs ! 0 = ?Z" by (metis nth_Cons_0)
      ultimately show "R ! i = ?Z mod (xs ! i)\<^sup>2"
        using \<open>R = [?Z]\<close> i0 by (simp add: sq_mod_self)
    qed
  next
    case (Suc m)
    with R(4) show ?thesis by simp
  qed
  with run R(2,3) show ?thesis by blast
qed

text \<open>
  With the root's remainder reduced modulo the square of the root, every leaf remainder is
  the direct reduction, also when the root is the only leaf.
\<close>

lemma remainders_squares_reduced_correct:
  assumes ne: "xs \<noteq> []" and pt: "product_tree xs = Inr (st, H)"
  shows "remainders_squares_reduced H st = Inr (map (\<lambda>x. prod_list xs mod x\<^sup>2) xs)"
proof -
  let ?Z = "prod_list xs"
  let ?seed = "[?Z mod ?Z\<^sup>2]"
  note lv = product_tree_levels [OF ne pt]
  from lv(1) have rd: "read_level_from_file st H = Inr [?Z]"
    using lv(2) by (simp add: read_level_from_file_def)
  have len: "length ?seed = length ((next_level ^^ H) xs)" using lv(2) by simp
  have cong: "\<forall>j<length ?seed. ?seed ! j mod ((next_level ^^ H) xs ! j)\<^sup>2
      = ?Z mod ((next_level ^^ H) xs ! j)\<^sup>2" using lv(2) by simp
  from descend_levels_exact [OF lv(1) len cong]
  obtain R where R: "descend_levels st H ?seed = Inr R" "length R = length xs"
      "0 < H \<or> (\<forall>j<length ?seed. ?seed ! j = ?Z mod (xs ! j)\<^sup>2)
         \<longrightarrow> (\<forall>i<length xs. R ! i = ?Z mod (xs ! i)\<^sup>2)"
    by (elim exE conjE)
  have pre: "0 < H \<or> (\<forall>j<length ?seed. ?seed ! j = ?Z mod (xs ! j)\<^sup>2)"
  proof (cases H)
    case 0
    with lv(2) have "xs = [?Z]" by simp
    then have "xs ! 0 = ?Z" by (metis nth_Cons_0)
    then show ?thesis by simp
  next
    case (Suc m)
    then show ?thesis by simp
  qed
  from R(3) pre have exact: "\<forall>i<length xs. R ! i = ?Z mod (xs ! i)\<^sup>2" by (rule mp)
  have "R = map (\<lambda>x. ?Z mod x\<^sup>2) xs"
    using R(2) exact by (intro nth_equalityI) simp_all
  moreover have "remainders_squares_reduced H st = Inr R"
    using rd R(1) by (simp add: remainders_squares_reduced_def bindE_def)
  ultimately show ?thesis by simp
qed

text \<open>
  An unpaired node has the value of its parent. Once the parent's remainder is reduced
  modulo the square of that value (as the remainder of every node below the root is), the
  step leaves it unchanged, as section 4.3 says of carried-forward nodes.
\<close>

lemma descend_carried_forward:
  assumes len: "length rs = (length xs + 1) div 2" and odd: "odd (length xs)"
    and red: "0 \<le> last rs" "last rs < (last xs)\<^sup>2"
  shows "last (descend rs xs) = last rs"
proof -
  let ?n = "length xs"
  from odd have n: "0 < ?n" by (cases xs) simp_all
  then have xs: "xs \<noteq> []" by simp
  from n len have "0 < length rs" by linarith
  then have rs: "rs \<noteq> []" by simp
  from odd have half: "(?n - 1) div 2 = length rs - 1"
    using len by (elim oddE) simp
  have "descend rs xs \<noteq> []"
    using descend_nth(1) [OF len] xs by (cases "descend rs xs") simp_all
  then have "last (descend rs xs) = descend rs xs ! (?n - 1)"
    using descend_nth(1) [OF len] by (simp add: last_conv_nth)
  also have "\<dots> = rs ! ((?n - 1) div 2) mod (xs ! (?n - 1))\<^sup>2"
    using descend_nth(2) [OF len] n by simp
  also have "\<dots> = last rs mod (last xs)\<^sup>2"
    using half xs rs by (simp add: last_conv_nth)
  also have "\<dots> = last rs"
    using red by simp
  finally show ?thesis .
qed


subsection \<open>A single leaf\<close>

lemma product_tree_single: "product_tree [X] = Inr (persistLevel 0 [X] Map.empty, 0)"
  by (simp add: product_tree_def)

lemma parts_ABC_single:
  assumes "X \<noteq> 0"
  shows "parts_ABC [X] = Inr ([X], [1])"
proof -
  let ?st = "persistLevel 0 [X] Map.empty"
  have rd: "read_level_from_file ?st 0 = Inr [X]"
    by (simp add: read_level_from_file_def persistLevel_def)
  then have rs: "remainders_squares 0 ?st = Inr [X]"
    by (simp add: remainders_squares_def bindE_def)
  have fg: "final_gcd X X = Inr 1"
    using assms by (simp add: final_gcd_def tdiv_self)
  show ?thesis
    unfolding parts_ABC_def product_tree_single
    by (simp add: bindE_def rs rd fg)
qed


section \<open>The finalizer\<close>

text \<open>
  C1. For every leaf \<open>i\<close> with modulus \<open>X\<^sub>i > 0\<close> and leaf remainder \<open>R\<^sub>i\<close>, in a run of
  part (C) that reaches the leaf (equally many remainders and moduli, no zero modulus),
  the new \<^verbatim>\<open>R[i]\<close> is \<open>D\<^sub>i = gcd (Q\<^sub>i, X\<^sub>i)\<close> for the quotient \<open>Q\<^sub>i\<close> of \<open>R\<^sub>i\<close> by \<open>X\<^sub>i\<close>
  (the program's division, which is the floor division for the remainders \<open>R\<^sub>i \<ge> 0\<close>
  that part (B) yields), and the verification loop takes the clean branch when
  \<open>D\<^sub>i = 1\<close>, the duplicate branch when \<open>D\<^sub>i = X\<^sub>i\<close>, and otherwise the compromised branch with
  \<open>factor_p = D\<^sub>i\<close> and \<open>factor_q = X\<^sub>i div D\<^sub>i\<close>. The cases are tried in this order, as the
  program tries them: for the modulus 1 the first one applies.
\<close>

theorem finalizer_classifies_leaf:
  assumes "length R = length X" and "\<forall>x\<in>set X. x \<noteq> 0" and "i < length X" and "0 < X ! i"
  shows "\<exists>D. final_gcds X R = Inr D
           \<and> D ! i = gcd (tdiv (R ! i) (X ! i)) (X ! i)
           \<and> (0 \<le> R ! i \<longrightarrow> tdiv (R ! i) (X ! i) = R ! i div X ! i)
           \<and> classify (X ! i) (D ! i) =
               (if D ! i = 1 then Clean
                else if D ! i = X ! i then Duplicate
                else Compromised (D ! i) (X ! i div D ! i))"
proof -
  let ?D = "map2 (\<lambda>x r. gcd (tdiv r x) x) X R"
  have run: "final_gcds X R = Inr ?D"
    using assms(1,2) by (rule final_gcds_map)
  have nth: "?D ! i = gcd (tdiv (R ! i) (X ! i)) (X ! i)"
    using assms(1,3) by simp
  from assms(4) have nz: "X ! i \<noteq> 0" by simp
  have cl: "classify (X ! i) (?D ! i) =
      (if ?D ! i = 1 then Clean else if ?D ! i = X ! i then Duplicate
       else Compromised (?D ! i) (X ! i div ?D ! i))"
    unfolding nth using assms(4) final_gcd_divisor(2,3) [OF nz] by (rule classify_divisor)
  have tr: "0 \<le> R ! i \<longrightarrow> tdiv (R ! i) (X ! i) = R ! i div X ! i"
    using assms(4) by (simp add: tdiv_nonneg)
  from run nth tr cl show ?thesis by blast
qed

text \<open>
  The theorem at the leaf 15 of the moduli 15 and 21, whose leaf remainders are 90 and 315.
\<close>

theorem finalizer_classifies_leaf_witness:
  "\<exists>D. final_gcds [15, 21] [90, 315] = Inr D \<and> D ! 0 = 3 \<and> classify 15 (D ! 0) = Compromised 3 5"
proof -
  have g: "gcd (tdiv 90 15) (15::int) = 3" by code_simp
  from finalizer_classifies_leaf [of "[90, 315]" "[15, 21]" 0]
  obtain D where "final_gcds [15, 21] [90, 315] = Inr D" "D ! 0 = gcd (tdiv 90 15) 15"
    "classify 15 (D ! 0) = (if D ! 0 = 1 then Clean else if D ! 0 = 15 then Duplicate
       else Compromised (D ! 0) (15 div D ! 0))"
    by auto
  then show ?thesis using g by simp
qed

text \<open>
  C2, as stated, fails: the leaf remainder 16 does not divide evenly by the modulus 15
  (\<open>16 = 1 * 15 + 1\<close>), and the program rounds the quotient to 1, finds the GCD 1, takes
  the clean branch and leaves the counter of false positives at 0.
\<close>

theorem inexact_division_counterexample:
  "tmod 16 15 \<noteq> 0 \<and> final_gcds [15] [16] = Inr [1] \<and> classify 15 1 = Clean
   \<and> verify [''k0''] [15] [1] report_init = Inr report_init"
proof -
  have g: "gcd (tdiv 16 15) (15::int) = 1" by code_simp
  have "tmod 16 15 \<noteq> 0" by (simp add: tmod_def)
  moreover have "final_gcds [15] [16] = Inr [1]"
    using g by (simp add: final_gcd_def bindE_def)
  moreover have c: "classify 15 1 = Clean" by (simp add: classify_def)
  moreover have "verify [''k0''] [15] [1] report_init = Inr report_init"
    using c by (simp add: verify_step_def bindE_def)
  ultimately show ?thesis by simp
qed

text \<open>
  C2, amended. The program does not test whether the division of part (C) is exact. If
  the leaf remainder \<open>R\<^sub>i\<close> does not divide evenly by the modulus \<open>X\<^sub>i > 0\<close>, the quotient is
  rounded towards zero, the leaf is not counted as a false positive, and it takes the
  clean, the duplicate or the compromised branch according to the GCD of the rounded
  quotient and \<open>X\<^sub>i\<close>.
\<close>

theorem inexact_division_not_detected:
  assumes "0 < X" and "tmod R X \<noteq> 0"
  shows "final_gcd X R = Inr (gcd (tdiv R X) X)
       \<and> classify X (gcd (tdiv R X) X) \<noteq> Anomaly
       \<and> classify X (gcd (tdiv R X) X) \<in> {Clean, Duplicate, Compromised (gcd (tdiv R X) X) (X div gcd (tdiv R X) X)}
       \<and> (\<exists>rep'. verify_step (Some ident) X (gcd (tdiv R X) X) rep = Inr rep'
              \<and> false_positives rep' = false_positives rep)"
proof -
  from assms(1) have nz: "X \<noteq> 0" by simp
  note d = final_gcd_divisor [OF nz, of R]
  have cl: "classify X (gcd (tdiv R X) X) =
      (if gcd (tdiv R X) X = 1 then Clean else if gcd (tdiv R X) X = X then Duplicate
       else Compromised (gcd (tdiv R X) X) (X div gcd (tdiv R X) X))"
    using assms(1) d(2,3) by (rule classify_divisor)
  then have na: "classify X (gcd (tdiv R X) X) \<noteq> Anomaly" by simp
  from cl have "\<exists>rep'. verify_step (Some ident) X (gcd (tdiv R X) X) rep = Inr rep'
      \<and> false_positives rep' = false_positives rep"
    by (simp add: verify_step_def)
  with d(1) na cl show ?thesis by simp
qed

text \<open>
  The theorem at the modulus 15 and the leaf remainder 16.
\<close>

theorem inexact_division_not_detected_witness:
  "tmod 16 15 \<noteq> 0 \<and> final_gcd 15 16 = Inr 1 \<and> classify 15 1 = Clean"
proof -
  have g: "gcd (tdiv 16 15) (15::int) = 1" by code_simp
  have h: "tmod 16 15 \<noteq> 0" by (simp add: tmod_def)
  from inexact_division_not_detected [of 15 16, OF _ h]
  have "final_gcd 15 16 = Inr (gcd (tdiv 16 15) 15)" by simp
  with g h show ?thesis by (simp add: classify_def)
qed

section \<open>The trees\<close>

text \<open>
  C3. For every nonempty sequence of positive moduli, parts (A) and (B) yield one leaf
  remainder \<open>R\<^sub>i\<close> per modulus, with \<open>R\<^sub>i \<equiv> Z (mod X\<^sub>i\<^sup>2)\<close> for the product \<open>Z\<close> of all
  moduli, that is \<open>R\<^sub>i mod X\<^sub>i\<^sup>2 = Z mod X\<^sub>i\<^sup>2\<close>. With the root's remainder reduced modulo
  the square of the root (\<open>leaf_remainders_reduced\<close>), \<open>R\<^sub>i\<close> is the direct reduction
  \<open>Z mod X\<^sub>i\<^sup>2\<close> on every input; with the root value itself as the seed
  (\<open>leaf_remainders\<close>) it is the direct reduction whenever there are at least two moduli
  or \<open>X\<^sub>i \<ge> 2\<close>, so that the two readings of the root's remainder can differ on the single
  modulus 1 only.
\<close>

theorem leaf_remainders_congruent:
  assumes "xs \<noteq> []" and "\<forall>x\<in>set xs. 0 < x"
  shows "\<exists>R. leaf_remainders xs = Inr R \<and> length R = length xs
     \<and> (\<forall>i<length xs. R ! i mod (xs ! i)\<^sup>2 = prod_list xs mod (xs ! i)\<^sup>2)
     \<and> (\<forall>i<length xs. 2 \<le> length xs \<or> 2 \<le> xs ! i
           \<longrightarrow> R ! i = prod_list xs mod (xs ! i)\<^sup>2)
     \<and> leaf_remainders_reduced xs = Inr (map (\<lambda>x. prod_list xs mod x\<^sup>2) xs)"
proof -
  from product_tree_total [OF assms(1)] obtain st H where pt: "product_tree xs = Inr (st, H)"
    by (elim exE)
  from remainders_squares_correct [OF assms(1) pt]
  obtain R where R: "remainders_squares H st = Inr R" "length R = length xs"
    "\<forall>i<length xs. R ! i mod (xs ! i)\<^sup>2 = prod_list xs mod (xs ! i)\<^sup>2"
    "\<forall>i<length xs. 2 \<le> length xs \<or> 2 \<le> xs ! i \<longrightarrow> R ! i = prod_list xs mod (xs ! i)\<^sup>2"
    by (elim exE conjE)
  have a: "leaf_remainders xs = Inr R"
    using pt R(1) by (simp add: leaf_remainders_def bindE_def)
  have b: "leaf_remainders_reduced xs = Inr (map (\<lambda>x. prod_list xs mod x\<^sup>2) xs)"
    using pt remainders_squares_reduced_correct [OF assms(1) pt]
    by (simp add: leaf_remainders_reduced_def bindE_def)
  from a R(2,3,4) b show ?thesis by (intro exI conjI)
qed

text \<open>
  The theorem at the moduli 15 and 21 (\<open>315 mod 225 = 90\<close> and \<open>315 mod 441 = 315\<close>), and
  at the single modulus 1, where the seed 1 is congruent to the direct reduction 0
  modulo \<open>1\<^sup>2\<close>.
\<close>

theorem leaf_remainders_congruent_witness:
  "(\<exists>R. leaf_remainders [15, 21] = Inr R \<and> length R = 2 \<and> R ! 0 = 90 \<and> R ! 1 = 315)
   \<and> leaf_remainders_reduced [15, 21] = Inr [90, 315]
   \<and> leaf_remainders [1] = Inr [1]
   \<and> leaf_remainders_reduced [1] = Inr [0]"
proof -
  have h1: "[15, 21::int] \<noteq> []" by simp
  have h2: "\<forall>x\<in>set [15, 21::int]. 0 < x" by simp
  from leaf_remainders_congruent [OF h1 h2]
  obtain R where R: "leaf_remainders [15, 21] = Inr R" "length R = length [15, 21::int]"
    "\<forall>i<length [15, 21::int]. 2 \<le> length [15, 21::int] \<or> 2 \<le> [15, 21::int] ! i
       \<longrightarrow> R ! i = prod_list [15, 21] mod ([15, 21] ! i)\<^sup>2"
    "leaf_remainders_reduced [15, 21]
       = Inr (map (\<lambda>x. prod_list [15, 21] mod x\<^sup>2) [15, 21])"
    by (elim exE conjE)
  from R(3) have "R ! 0 = prod_list [15, 21] mod ([15, 21] ! 0)\<^sup>2"
    and "R ! 1 = prod_list [15, 21] mod ([15, 21] ! 1)\<^sup>2" by simp_all
  then have "R ! 0 = 90" "R ! 1 = 315" by simp_all
  with R(1,2) have a: "\<exists>R. leaf_remainders [15, 21] = Inr R \<and> length R = 2
      \<and> R ! 0 = 90 \<and> R ! 1 = 315" by simp
  from R(4) have b: "leaf_remainders_reduced [15, 21] = Inr [90, 315]" by simp
  have g1: "[1::int] \<noteq> []" by simp
  have g2: "\<forall>x\<in>set [1::int]. 0 < x" by simp
  from leaf_remainders_congruent [OF g1 g2]
  have "leaf_remainders_reduced [1] = Inr (map (\<lambda>x. prod_list [1] mod x\<^sup>2) [1])"
    by (elim exE conjE)
  then have d: "leaf_remainders_reduced [1] = Inr [0]" by simp
  have c: "leaf_remainders [1] = Inr [1]" by code_simp
  from a b c d show ?thesis by (intro conjI)
qed

text \<open>
  C4. For every leaf sequence of size \<open>n \<ge> 1\<close> the builder succeeds; level 0 of the store
  is the leaf sequence, every level \<open>L + 1\<close> up to the height \<open>H\<close> is \<open>next_level\<close> of level
  \<open>L\<close> (half as many entries, rounded up; entry \<open>j\<close> the product of entries \<open>2j\<close> and
  \<open>2j+1\<close>, an unpaired last entry copied), and level \<open>H\<close> is the single entry that is the
  product of all leaves.
\<close>

theorem product_tree_root_is_product:
  assumes "xs \<noteq> []"
  shows "\<exists>st H. product_tree xs = Inr (st, H)
     \<and> st 0 = Some xs
     \<and> (\<forall>L<H. \<exists>lo. st L = Some lo \<and> 1 < length lo \<and> st (Suc L) = Some (next_level lo))
     \<and> st H = Some [prod_list xs]
     \<and> read_level_from_file st H = Inr [prod_list xs]"
proof -
  from product_tree_total [OF assms] obtain st H where pt: "product_tree xs = Inr (st, H)"
    by (elim exE)
  note lv = product_tree_levels [OF assms pt]
  from lv(1) have z: "st 0 = Some xs" by simp
  have step: "\<forall>L<H. \<exists>lo. st L = Some lo \<and> 1 < length lo \<and> st (Suc L) = Some (next_level lo)"
  proof (intro allI impI)
    fix L assume L: "L < H"
    with lv(1) have "st L = Some ((next_level ^^ L) xs)" by simp
    moreover from L lv(3) have "1 < length ((next_level ^^ L) xs)" by simp
    moreover from L lv(1) have "st (Suc L) = Some ((next_level ^^ Suc L) xs)"
      by (simp only: Suc_le_eq)
    then have "st (Suc L) = Some (next_level ((next_level ^^ L) xs))" by simp
    ultimately show "\<exists>lo. st L = Some lo \<and> 1 < length lo \<and> st (Suc L) = Some (next_level lo)"
      by (intro exI conjI)
  qed
  from lv(1,2) have top: "st H = Some [prod_list xs]" by simp
  then have rd: "read_level_from_file st H = Inr [prod_list xs]"
    by (simp add: read_level_from_file_def)
  from pt z step top rd show ?thesis by (intro exI conjI)
qed

text \<open>
  The theorem at the leaves 6, 10 and 15, whose product is 900.
\<close>

theorem product_tree_root_is_product_witness:
  "\<exists>st H. product_tree [6, 10, 15] = Inr (st, H) \<and> st 0 = Some [6, 10, 15] \<and> st H = Some [900]"
proof -
  have h: "[6, 10, 15::int] \<noteq> []" by simp
  from product_tree_root_is_product [OF h]
  obtain st H where "product_tree [6, 10, 15] = Inr (st, H)" and "st 0 = Some [6, 10, 15]"
    and "st H = Some [prod_list [6, 10, 15]]"
    by (elim exE conjE)
  then show ?thesis by simp
qed

section \<open>Whole runs\<close>

text \<open>
  C5. On the moduli 15 and 21 (with any two identifiers \<open>a\<close> and \<open>b\<close>) the run ends with
  both leaves in the compromised tally, the first with \<open>factor_p = 3\<close> and
  \<open>factor_q = 5\<close>, the second with \<open>factor_p = 3\<close> and \<open>factor_q = 7\<close>, no duplicate and
  no false positive.
\<close>

theorem scenario_A_15_21:
  "main 2 [a, b] [15, 21]
     = Inr \<lparr>duplicates = [], compromised = [(a, 3, 5), (b, 3, 7)], false_positives = 0\<rparr>
   \<and> leaf_classes [15, 21] = Inr [Compromised 3 5, Compromised 3 7]"
  by code_simp

text \<open>
  C6. On the moduli 91 and 91 the run ends with both leaves in the duplicate tally.
\<close>

theorem scenario_C_91_91:
  "main 2 [a, b] [91, 91]
     = Inr \<lparr>duplicates = [a, b], compromised = [], false_positives = 0\<rparr>
   \<and> leaf_classes [91, 91] = Inr [Duplicate, Duplicate]"
  by code_simp

text \<open>
  C7. On a single positive modulus \<open>X\<close> the builder returns height 0 (with \<open>X\<close> as
  level 0), the leaf remainder is \<open>X\<close>, the leaf takes the clean branch, and the run ends
  without error and with empty tallies.
\<close>

theorem single_modulus_height_0_clean:
  assumes "0 < X"
  shows "(\<exists>st. product_tree [X] = Inr (st, 0) \<and> read_level_from_file st 0 = Inr [X])
       \<and> leaf_remainders [X] = Inr [X]
       \<and> leaf_classes [X] = Inr [Clean]
       \<and> main 2 [ident] [X] = Inr \<lparr>duplicates = [], compromised = [], false_positives = 0\<rparr>"
proof -
  from assms have nz: "X \<noteq> 0" by simp
  let ?st = "persistLevel 0 [X] Map.empty"
  have rd: "read_level_from_file ?st 0 = Inr [X]"
    by (simp add: read_level_from_file_def persistLevel_def)
  then have a: "\<exists>st. product_tree [X] = Inr (st, 0) \<and> read_level_from_file st 0 = Inr [X]"
    using product_tree_single by blast
  have b: "leaf_remainders [X] = Inr [X]"
    unfolding leaf_remainders_def product_tree_single
    by (simp add: bindE_def remainders_squares_def rd)
  have cl: "classify X 1 = Clean" by (simp add: classify_def)
  have c: "leaf_classes [X] = Inr [Clean]"
    by (simp add: leaf_classes_def parts_ABC_single [OF nz] bindE_def cl)
  have d: "main 2 [ident] [X] = Inr \<lparr>duplicates = [], compromised = [], false_positives = 0\<rparr>"
    by (simp add: main_def parts_ABC_single [OF nz] bindE_def verify_step_def cl report_init_def)
  from a b c d show ?thesis by (intro conjI)
qed

text \<open>
  The theorem at the modulus 7.
\<close>

theorem single_modulus_height_0_clean_witness:
  "(\<exists>st. product_tree [7] = Inr (st, 0)) \<and> leaf_classes [7] = Inr [Clean]
   \<and> main 2 [''k0''] [7] = Inr \<lparr>duplicates = [], compromised = [], false_positives = 0\<rparr>"
  using single_modulus_height_0_clean [of 7 "''k0''"] by auto

section \<open>The verification loop\<close>

text \<open>
  C8. Whatever the values in \<^verbatim>\<open>R\<close> (one per modulus, and one identifier per modulus),
  the verification loop runs to its end: every leaf takes one of the four branches, the
  counter of false positives is the number of leaves that took the anomaly branch, and
  the duplicate and compromised tallies hold the leaves of these branches, in order.
\<close>

theorem anomalies_counted_run_completes:
  assumes "length ids = length X" and "length R = length X"
  shows "\<exists>rep. verify ids X R report_init = Inr rep
     \<and> length (map2 classify X R) = length X
     \<and> false_positives rep = int (length (filter (\<lambda>c. c = Anomaly) (map2 classify X R)))
     \<and> duplicates rep =
          map fst (filter (\<lambda>(a, c). c = Duplicate) (zip ids (map2 classify X R)))
     \<and> compromised rep =
          concat (map (\<lambda>(a, c). case c of Compromised p q \<Rightarrow> [(a, p, q)] | _ \<Rightarrow> [])
            (zip ids (map2 classify X R)))"
proof -
  from verify_tallies [OF assms, of report_init]
  obtain rep where "verify ids X R report_init = Inr rep"
    and "false_positives rep = false_positives report_init
           + int (length (filter (\<lambda>c. c = Anomaly) (map2 classify X R)))"
    and "duplicates rep = duplicates report_init
           @ map fst (filter (\<lambda>(a, c). c = Duplicate) (zip ids (map2 classify X R)))"
    and "compromised rep = compromised report_init
           @ concat (map (\<lambda>(a, c). case c of Compromised p q \<Rightarrow> [(a, p, q)] | _ \<Rightarrow> [])
               (zip ids (map2 classify X R)))"
    by (elim exE conjE)
  moreover have "length (map2 classify X R) = length X" using assms(2) by simp
  ultimately show ?thesis by (simp add: report_init_def)
qed

text \<open>
  The theorem on two leaves of which the first takes the anomaly branch (\<^verbatim>\<open>R[0] == 0\<close>):
  the count is 1 and the second leaf is still reported.
\<close>

theorem anomalies_counted_run_completes_witness:
  "\<exists>rep. verify [''k0'', ''k1''] [15, 21] [0, 3] report_init = Inr rep
     \<and> false_positives rep = 1 \<and> duplicates rep = [] \<and> compromised rep = [(''k1'', 3, 7)]"
proof -
  have c0: "classify 15 0 = Anomaly" by (simp add: classify_def)
  have c1: "classify 21 3 = Compromised 3 7" by (simp add: classify_def tmod_def tdiv_def)
  have h1: "length [''k0'', ''k1''] = length [15, 21::int]" by simp
  have h2: "length [0, 3::int] = length [15, 21::int]" by simp
  from anomalies_counted_run_completes [OF h1 h2]
  show ?thesis by (simp add: c0 c1)
qed

text \<open>
  C10. When all moduli are positive (and \<^verbatim>\<open>R\<close> and \<^verbatim>\<open>IDs\<close> have one entry per modulus),
  part (C) runs to its end, every new \<^verbatim>\<open>R[i]\<close> is at least 1 and divides its modulus, the
  condition \<^verbatim>\<open>R[i] == 0 || input_moduli[i] % R[i] != 0\<close> holds for no leaf, and the
  verification loop ends with the counter of false positives at 0.
\<close>

theorem anomaly_branch_unreachable:
  assumes "\<forall>x\<in>set X. 0 < x" and "length R = length X" and "length ids = length X"
  shows "\<exists>D rep. final_gcds X R = Inr D \<and> length D = length X
           \<and> (\<forall>i<length X. D ! i = gcd (tdiv (R ! i) (X ! i)) (X ! i)
                 \<and> 1 \<le> D ! i \<and> D ! i dvd X ! i
                 \<and> \<not> (D ! i = 0 \<or> tmod (X ! i) (D ! i) \<noteq> 0)
                 \<and> classify (X ! i) (D ! i) \<noteq> Anomaly)
           \<and> verify ids X D report_init = Inr rep \<and> false_positives rep = 0"
proof -
  let ?D = "map2 (\<lambda>x r. gcd (tdiv r x) x) X R"
  from assms(1) have nz: "\<forall>x\<in>set X. x \<noteq> 0" by auto
  have run: "final_gcds X R = Inr ?D"
    using assms(2) nz by (rule final_gcds_map)
  have len: "length ?D = length X" using assms(2) by simp
  have leaf: "\<forall>i<length X. ?D ! i = gcd (tdiv (R ! i) (X ! i)) (X ! i)
      \<and> 1 \<le> ?D ! i \<and> ?D ! i dvd X ! i
      \<and> \<not> (?D ! i = 0 \<or> tmod (X ! i) (?D ! i) \<noteq> 0)
      \<and> classify (X ! i) (?D ! i) \<noteq> Anomaly"
  proof (intro allI impI)
    fix i assume i: "i < length X"
    then have pos: "0 < X ! i" using assms(1) by simp
    then have nzi: "X ! i \<noteq> 0" by simp
    have nth: "?D ! i = gcd (tdiv (R ! i) (X ! i)) (X ! i)"
      using i assms(2) by simp
    note d = final_gcd_divisor [OF nzi, of "R ! i"]
    have "classify (X ! i) (gcd (tdiv (R ! i) (X ! i)) (X ! i)) \<noteq> Anomaly"
      using classify_divisor [OF pos d(2,3)] by simp
    moreover have "tmod (X ! i) (gcd (tdiv (R ! i) (X ! i)) (X ! i)) = 0"
      using d(3) by (simp only: tmod_eq_0_iff)
    ultimately show "?D ! i = gcd (tdiv (R ! i) (X ! i)) (X ! i)
      \<and> 1 \<le> ?D ! i \<and> ?D ! i dvd X ! i
      \<and> \<not> (?D ! i = 0 \<or> tmod (X ! i) (?D ! i) \<noteq> 0)
      \<and> classify (X ! i) (?D ! i) \<noteq> Anomaly"
      unfolding nth using d(2,3) nzi by simp
  qed
  have none: "filter (\<lambda>c. c = Anomaly) (map2 classify X ?D) = []"
  proof -
    have "\<forall>c\<in>set (map2 classify X ?D). c \<noteq> Anomaly"
    proof
      fix c assume "c \<in> set (map2 classify X ?D)"
      then obtain i where i: "i < length (map2 classify X ?D)" and c: "c = map2 classify X ?D ! i"
        unfolding in_set_conv_nth by auto
      from i len have iX: "i < length X" by simp
      with c len have eq: "c = classify (X ! i) (?D ! i)" by simp
      from leaf [rule_format, OF iX] have ne: "classify (X ! i) (?D ! i) \<noteq> Anomaly"
        by (elim conjE)
      show "c \<noteq> Anomaly" unfolding eq by (rule ne)
    qed
    then show ?thesis by (simp add: filter_empty_conv)
  qed
  from verify_tallies [OF assms(3) len, of report_init]
  obtain rep where "verify ids X ?D report_init = Inr rep"
    and "false_positives rep = false_positives report_init
          + int (length (filter (\<lambda>c. c = Anomaly) (map2 classify X ?D)))"
    by blast
  with none have v: "verify ids X ?D report_init = Inr rep" and z: "false_positives rep = 0"
    by (simp_all add: report_init_def)
  show ?thesis
  proof (intro exI conjI)
    show "final_gcds X R = Inr ?D" by (rule run)
    show "length ?D = length X" by (rule len)
    show "\<forall>i<length X. ?D ! i = gcd (tdiv (R ! i) (X ! i)) (X ! i)
      \<and> 1 \<le> ?D ! i \<and> ?D ! i dvd X ! i
      \<and> \<not> (?D ! i = 0 \<or> tmod (X ! i) (?D ! i) \<noteq> 0)
      \<and> classify (X ! i) (?D ! i) \<noteq> Anomaly" by (rule leaf)
    show "verify ids X ?D report_init = Inr rep" by (rule v)
    show "false_positives rep = 0" by (rule z)
  qed
qed

text \<open>
  The theorem at the moduli 15 and 21 with the leaf remainders 90 and 315.
\<close>

theorem anomaly_branch_unreachable_witness:
  "\<exists>D rep. final_gcds [15, 21] [90, 315] = Inr D
     \<and> verify [''k0'', ''k1''] [15, 21] D report_init = Inr rep \<and> false_positives rep = 0"
proof -
  have h1: "\<forall>x\<in>set [15, 21::int]. 0 < x" by simp
  have h2: "length [90, 315::int] = length [15, 21::int]" by simp
  have h3: "length [''k0'', ''k1''] = length [15, 21::int]" by simp
  from anomaly_branch_unreachable [OF h1 h2 h3]
  obtain D rep where "final_gcds [15, 21] [90, 315] = Inr D"
    and "verify [''k0'', ''k1''] [15, 21] D report_init = Inr rep" and "false_positives rep = 0"
    by (elim exE conjE)
  then show ?thesis by (intro exI conjI)
qed

section \<open>Numeric base\<close>

text \<open>
  C9. The base handed to the reader of the moduli is 16 when the flag is unset (its
  initial value, which the option parser keeps when the option is absent), and it is 10
  exactly when the flag is set, which is what the option parser does on seeing the option.
\<close>

theorem base_default_16_and_10_iff_flag:
  "set_base base_10_flag_init = 16
   \<and> (set_base flag = 10 \<longleftrightarrow> flag \<noteq> 0)
   \<and> (set_base flag = 16 \<longleftrightarrow> flag = 0)
   \<and> set_base (getopt_long_only True base_10_flag_init) = 10
   \<and> set_base (getopt_long_only False base_10_flag_init) = 16"
  by (simp add: set_base_def getopt_long_only_def base_10_flag_init_def)


end
